theory Spec2Isabelle
  imports Complex_Main
begin

section \<open>Keypoint matching and RANSAC (assignment4/solution.py)\<close>

text \<open>
  The model follows \<^verbatim>\<open>src/assignment4/solution.py\<close> function by function.

  Numbers. numpy \<^verbatim>\<open>float64\<close> values and Python floats are idealised as \<^typ>\<open>real\<close>:
  rounding and overflow are not modelled. What is modelled is where the two kinds of
  float differ on a zero divisor: a Python float division raises
  \<^verbatim>\<open>ZeroDivisionError\<close>, a numpy division yields \<^verbatim>\<open>inf\<close> or \<^verbatim>\<open>nan\<close> (with a warning,
  no exception). A non-finite numpy value is \<open>None\<close>; every comparison
  \<^verbatim>\<open>abs(x - y) <= t\<close> with a non-finite operand and a finite \<^verbatim>\<open>t\<close> is false in IEEE
  arithmetic, and is false in the model.

  Errors. Every exception the code can raise is a value of \<open>error\<close>; a function that
  can raise returns \<open>error + 'a\<close>, with \<open>Inl\<close> for the exception.

  Randomness. \<^verbatim>\<open>random.sample\<close> reads a global generator. Its outcome is passed in
  as a draw: the list of positions of the population that the call picks.
\<close>

datatype error =
    ValueError          \<comment> \<open>\<^verbatim>\<open>random.sample\<close>: sample larger than population; \<^verbatim>\<open>np.dot\<close>: shapes not aligned\<close>
  | MathDomainError     \<comment> \<open>the \<^verbatim>\<open>ValueError\<close> of \<^verbatim>\<open>math.acos\<close>: math domain error\<close>
  | IndexError
  | ZeroDivisionError
  | AssertionError
  | Cv2Error            \<comment> \<open>\<^verbatim>\<open>cv2.error\<close>, raised inside \<^verbatim>\<open>cv2.findHomography\<close>\<close>

type_synonym 'a result = "error + 'a"

definition bind_result :: "'a result \<Rightarrow> ('a \<Rightarrow> 'b result) \<Rightarrow> 'b result" where
  "bind_result m f = (case m of Inl e \<Rightarrow> Inl e | Inr x \<Rightarrow> f x)"

subsection \<open>Library operations the code calls\<close>

definition py_index :: "'a list \<Rightarrow> int \<Rightarrow> 'a result" where
  \<comment> \<open>\<^verbatim>\<open>xs[i]\<close> on a list or on the first axis of an array: negative indices count from the end\<close>
  "py_index xs i =
     (if 0 \<le> i \<and> i < int (length xs) then Inr (xs ! nat i)
      else if i < 0 \<and> - int (length xs) \<le> i then Inr (xs ! nat (int (length xs) + i))
      else Inl IndexError)"

definition valid_draw :: "nat list \<Rightarrow> nat \<Rightarrow> nat \<Rightarrow> bool" where
  \<comment> \<open>what \<^verbatim>\<open>random.sample(population, k)\<close> picks from \<open>n\<close> elements: \<open>k\<close> distinct positions\<close>
  "valid_draw draw n k = (length draw = k \<and> distinct draw \<and> list_all (\<lambda>p. p < n) draw)"

definition random_sample :: "nat list \<Rightarrow> 'a list \<Rightarrow> nat \<Rightarrow> 'a list result" where
  "random_sample draw population k =
     (if length population < k then Inl ValueError
      else Inr (map (\<lambda>p. population ! p) draw))"

definition np_div :: "real \<Rightarrow> real \<Rightarrow> real option" where
  \<comment> \<open>numpy division: a zero divisor gives \<^verbatim>\<open>inf\<close> or \<^verbatim>\<open>nan\<close>, not an exception\<close>
  "np_div x y = (if y = 0 then None else Some (x / y))"

definition py_div :: "real \<Rightarrow> real \<Rightarrow> real result" where
  \<comment> \<open>division of Python floats\<close>
  "py_div x y = (if y = 0 then Inl ZeroDivisionError else Inr (x / y))"

definition np_dot :: "real list \<Rightarrow> real list \<Rightarrow> real result" where
  "np_dot a b =
     (if length a \<noteq> length b then Inl ValueError
      else Inr (sum_list (map2 (*) a b)))"

definition math_acos :: "real \<Rightarrow> real result" where
  "math_acos x = (if - 1 \<le> x \<and> x \<le> 1 then Inr (arccos x) else Inl MathDomainError)"

subsection \<open>RANSACFilter\<close>

text \<open>A row of a keypoint array of shape \<^verbatim>\<open>(num_pts, 4)\<close>: row, col, scale, orientation.\<close>

record keypoint =
  row :: real
  col :: real
  scale :: real
  orientation :: real

type_synonym match = "int \<times> int"

definition orient_diff :: "keypoint list \<Rightarrow> keypoint list \<Rightarrow> match \<Rightarrow> real result" where
  \<comment> \<open>\<^verbatim>\<open>keypoints1[p[0]][3] - keypoints2[p[1]][3]\<close>\<close>
  "orient_diff keypoints1 keypoints2 p =
     bind_result (py_index keypoints1 (fst p)) (\<lambda>a.
     bind_result (py_index keypoints2 (snd p)) (\<lambda>b.
     Inr (orientation a - orientation b)))"

definition scale_ratio :: "keypoint list \<Rightarrow> keypoint list \<Rightarrow> match \<Rightarrow> real option result" where
  \<comment> \<open>\<^verbatim>\<open>keypoints1[p[0]][2] / keypoints2[p[1]][2]\<close>\<close>
  "scale_ratio keypoints1 keypoints2 p =
     bind_result (py_index keypoints1 (fst p)) (\<lambda>a.
     bind_result (py_index keypoints2 (snd p)) (\<lambda>b.
     Inr (np_div (scale a) (scale b))))"

definition abs_diff_le :: "real option \<Rightarrow> real option \<Rightarrow> real \<Rightarrow> bool" where
  \<comment> \<open>\<^verbatim>\<open>abs(x - y) <= t\<close> on numpy values\<close>
  "abs_diff_le x y t = (case (x, y) of (Some u, Some v) \<Rightarrow> \<bar>u - v\<bar> \<le> t | _ \<Rightarrow> False)"

definition agrees ::
  "keypoint list \<Rightarrow> keypoint list \<Rightarrow> real \<Rightarrow> real \<Rightarrow> real \<Rightarrow> real option \<Rightarrow> match \<Rightarrow> bool result"
where
  \<comment> \<open>the condition of line 41; the right operand of \<^verbatim>\<open>and\<close> is only evaluated when the left holds\<close>
  "agrees keypoints1 keypoints2 orient_agreement scale_agreement base_orientation base_scale p =
     bind_result (orient_diff keypoints1 keypoints2 p) (\<lambda>d.
       if \<bar>d - base_orientation\<bar> \<le> orient_agreement
       then bind_result (scale_ratio keypoints1 keypoints2 p) (\<lambda>r.
              Inr (abs_diff_le r base_scale scale_agreement))
       else Inr False)"

fun consensus ::
  "keypoint list \<Rightarrow> keypoint list \<Rightarrow> real \<Rightarrow> real \<Rightarrow> real \<Rightarrow> real option \<Rightarrow> match list
     \<Rightarrow> match list result"
where
  \<comment> \<open>the inner loop, lines 39 to 42: \<open>current_set\<close> in the order of \<open>matched_pairs\<close>\<close>
  "consensus keypoints1 keypoints2 oa sa bo bs [] = Inr []"
| "consensus keypoints1 keypoints2 oa sa bo bs (p # ps) =
     bind_result (agrees keypoints1 keypoints2 oa sa bo bs p) (\<lambda>ok.
     bind_result (consensus keypoints1 keypoints2 oa sa bo bs ps) (\<lambda>rest.
     Inr (if ok then p # rest else rest)))"

fun filter_loop ::
  "keypoint list \<Rightarrow> keypoint list \<Rightarrow> real \<Rightarrow> real \<Rightarrow> match list \<Rightarrow> match list \<Rightarrow> match list
     \<Rightarrow> match list result"
where
  \<comment> \<open>the outer loop, lines 36 to 44, over the remaining samples, with \<open>largest_set\<close>\<close>
  "filter_loop keypoints1 keypoints2 oa sa matched_pairs [] largest_set = Inr largest_set"
| "filter_loop keypoints1 keypoints2 oa sa matched_pairs (s # ss) largest_set =
     bind_result (orient_diff keypoints1 keypoints2 s) (\<lambda>base_orientation.
     bind_result (scale_ratio keypoints1 keypoints2 s) (\<lambda>base_scale.
     bind_result (consensus keypoints1 keypoints2 oa sa base_orientation base_scale matched_pairs)
       (\<lambda>current_set.
     filter_loop keypoints1 keypoints2 oa sa matched_pairs ss
       (if length current_set > length largest_set then current_set else largest_set))))"

definition RANSACFilter ::
  "nat list \<Rightarrow> match list \<Rightarrow> keypoint list \<Rightarrow> keypoint list \<Rightarrow> real \<Rightarrow> real \<Rightarrow> match list result"
where
  "RANSACFilter draw matched_pairs keypoints1 keypoints2 orient_agreement scale_agreement =
     bind_result (random_sample draw matched_pairs 10) (\<lambda>random_selections.
     filter_loop keypoints1 keypoints2 orient_agreement scale_agreement matched_pairs
       random_selections [])"

subsection \<open>FindBestMatches\<close>

definition angular :: "real list \<Rightarrow> real list \<Rightarrow> real result" where
  \<comment> \<open>\<^verbatim>\<open>math.acos(np.dot(d1, d2))\<close>: the dot product goes to \<^verbatim>\<open>acos\<close> as it is\<close>
  "angular d1 d2 = bind_result (np_dot d1 d2) math_acos"

fun sort_keys :: "real list \<Rightarrow> (nat \<times> real list) list \<Rightarrow> real list result" where
  \<comment> \<open>\<^verbatim>\<open>sorted\<close> calls the key function once on every element, in order, before it sorts\<close>
  "sort_keys d1 [] = Inr []"
| "sort_keys d1 (e # es) =
     bind_result (angular d1 (snd e)) (\<lambda>k.
     bind_result (sort_keys d1 es) (\<lambda>ks.
     Inr (k # ks)))"

definition sorted_by_distance ::
  "real list \<Rightarrow> real list list \<Rightarrow> (nat \<times> real list) list result"
where
  \<comment> \<open>line 76: \<^verbatim>\<open>sorted(enumerate(descriptors2), key=...)\<close>, a stable sort on the keys\<close>
  "sorted_by_distance d1 descriptors2 =
     bind_result (sort_keys d1 (enumerate 0 descriptors2)) (\<lambda>ks.
     Inr (map fst (sort_key snd (zip (enumerate 0 descriptors2) ks))))"

definition best_match :: "real list \<Rightarrow> real list list \<Rightarrow> real \<Rightarrow> nat option result" where
  \<comment> \<open>lines 76 and 77 for one \<open>d1\<close>: the index to append, if the ratio test accepts\<close>
  "best_match d1 descriptors2 threshold =
     bind_result (sorted_by_distance d1 descriptors2) (\<lambda>descriptors2_sorted.
     bind_result (py_index descriptors2_sorted 0) (\<lambda>best.
     bind_result (angular d1 (snd best)) (\<lambda>a.
     bind_result (py_index descriptors2_sorted 1) (\<lambda>second.
     bind_result (angular d1 (snd second)) (\<lambda>b.
     bind_result (py_div a b) (\<lambda>r.
     Inr (if r \<le> threshold then Some (fst best) else None)))))))"

fun match_loop :: "nat \<Rightarrow> real list list \<Rightarrow> real list list \<Rightarrow> real \<Rightarrow> match list result" where
  \<comment> \<open>the loop of lines 75 to 78 from index \<open>i\<close> on, over the remaining rows of \<open>descriptors1\<close>\<close>
  "match_loop i [] descriptors2 threshold = Inr []"
| "match_loop i (d1 # ds) descriptors2 threshold =
     bind_result (best_match d1 descriptors2 threshold) (\<lambda>m.
     bind_result (match_loop (Suc i) ds descriptors2 threshold) (\<lambda>rest.
     Inr (case m of Some j \<Rightarrow> (int i, int j) # rest | None \<Rightarrow> rest)))"

definition FindBestMatches :: "real list list \<Rightarrow> real list list \<Rightarrow> real \<Rightarrow> match list result" where
  "FindBestMatches descriptors1 descriptors2 threshold =
     match_loop 0 descriptors1 descriptors2 threshold"

subsection \<open>KeypointProjection\<close>

type_synonym point = "real \<times> real"

type_synonym matrix = "(real \<times> real \<times> real) \<times> (real \<times> real \<times> real) \<times> (real \<times> real \<times> real)"

definition project_point :: "matrix \<Rightarrow> point \<Rightarrow> point option" where
  \<comment> \<open>lines 99 to 102 on one row: \<open>h\<close> times \<open>(x, y, 1)\<close>, then the numpy division by the third
      component; both quotients are non-finite exactly when that component is 0\<close>
  "project_point h p =
     (case h of ((h00, h01, h02), (h10, h11, h12), (h20, h21, h22)) \<Rightarrow>
      case p of (x, y) \<Rightarrow>
        let x' = h00 * x + h01 * y + h02 * 1;
            y' = h10 * x + h11 * y + h12 * 1;
            w' = h20 * x + h21 * y + h22 * 1
        in if w' = 0 then None else Some (x' / w', y' / w'))"

definition KeypointProjection :: "point list \<Rightarrow> matrix option \<Rightarrow> point option list result" where
  \<comment> \<open>\<open>h = None\<close> is Python's \<^verbatim>\<open>None\<close>, which \<^verbatim>\<open>assert isinstance(h, np.ndarray)\<close> rejects\<close>
  "KeypointProjection xy_points h =
     (case h of None \<Rightarrow> Inl AssertionError
      | Some m \<Rightarrow> Inr (map (project_point m) xy_points))"

definition identity_matrix :: matrix where
  "identity_matrix = ((1, 0, 0), (0, 1, 0), (0, 0, 1))"

subsection \<open>RANSACHomography\<close>

text \<open>
  \<^verbatim>\<open>cv2.findHomography(src, ref)[0]\<close> is the external solver. It is a parameter of the
  model: it raises (\<open>Inl\<close>), returns \<^verbatim>\<open>None\<close> when it finds no matrix (\<open>Inr None\<close>), or
  returns a matrix. The draws are a function of the iteration number.
\<close>

type_synonym solver = "point list \<Rightarrow> point list \<Rightarrow> matrix option result"

definition take_rows :: "'a list \<Rightarrow> nat list \<Rightarrow> 'a list" where
  \<comment> \<open>\<^verbatim>\<open>xs[idx]\<close> for a list \<open>idx\<close> of positions\<close>
  "take_rows xs idx = map (\<lambda>j. xs ! j) idx"

definition norm_le :: "point \<Rightarrow> point option \<Rightarrow> real \<Rightarrow> bool" where
  \<comment> \<open>\<^verbatim>\<open>np.linalg.norm(r - q) <= tol\<close>\<close>
  "norm_le r q tol =
     (case q of None \<Rightarrow> False
      | Some (x, y) \<Rightarrow> sqrt ((fst r - x)\<^sup>2 + (snd r - y)\<^sup>2) \<le> tol)"

definition iteration ::
  "solver \<Rightarrow> (nat \<Rightarrow> nat list) \<Rightarrow> point list \<Rightarrow> point list \<Rightarrow> real \<Rightarrow> nat \<Rightarrow> nat list result"
where
  \<comment> \<open>lines 136 to 142: the \<open>current_set\<close> of iteration \<open>i\<close>\<close>
  "iteration solver draws xy_src xy_ref tol i =
     bind_result (random_sample (draws i) [0..<length xy_src] 4) (\<lambda>random_selections.
     bind_result (solver (take_rows xy_src random_selections) (take_rows xy_ref random_selections))
       (\<lambda>h.
     bind_result (KeypointProjection xy_src h) (\<lambda>projected_points.
     Inr (filter (\<lambda>j. norm_le (xy_ref ! j) (projected_points ! j) tol) [0..<length xy_src]))))"

fun homography_loop ::
  "solver \<Rightarrow> (nat \<Rightarrow> nat list) \<Rightarrow> point list \<Rightarrow> point list \<Rightarrow> real \<Rightarrow> nat list \<Rightarrow> nat list
     \<Rightarrow> nat list result"
where
  \<comment> \<open>the loop of lines 135 to 144 over the remaining iteration numbers, with \<open>largest_set\<close>\<close>
  "homography_loop solver draws xy_src xy_ref tol [] largest_set = Inr largest_set"
| "homography_loop solver draws xy_src xy_ref tol (i # rest) largest_set =
     bind_result (iteration solver draws xy_src xy_ref tol i) (\<lambda>current_set.
     homography_loop solver draws xy_src xy_ref tol rest
       (if length current_set > length largest_set then current_set else largest_set))"

definition refit :: "solver \<Rightarrow> point list \<Rightarrow> point list \<Rightarrow> nat list \<Rightarrow> matrix result" where
  \<comment> \<open>line 145 and the assertion of line 148\<close>
  "refit solver xy_src xy_ref largest_set =
     bind_result (solver (take_rows xy_src largest_set) (take_rows xy_ref largest_set)) (\<lambda>h.
     case h of None \<Rightarrow> Inl AssertionError | Some m \<Rightarrow> Inr m)"

definition RANSACHomography ::
  "solver \<Rightarrow> (nat \<Rightarrow> nat list) \<Rightarrow> point list \<Rightarrow> point list \<Rightarrow> int \<Rightarrow> real \<Rightarrow> matrix result"
where
  "RANSACHomography solver draws xy_src xy_ref num_iter tol =
     (if length xy_src \<noteq> length xy_ref then Inl AssertionError
      else bind_result (homography_loop solver draws xy_src xy_ref tol [0..<nat num_iter] [])
             (refit solver xy_src xy_ref))"

subsection \<open>Well-formed inputs\<close>

definition in_range :: "'a list \<Rightarrow> int \<Rightarrow> bool" where
  \<comment> \<open>the indices that \<^verbatim>\<open>xs[i]\<close> accepts\<close>
  "in_range xs i = (- int (length xs) \<le> i \<and> i < int (length xs))"

definition valid_matches :: "keypoint list \<Rightarrow> keypoint list \<Rightarrow> match list \<Rightarrow> bool" where
  \<comment> \<open>every pair \<open>(i, j)\<close> names a row of \<open>keypoints1\<close> and a row of \<open>keypoints2\<close>\<close>
  "valid_matches keypoints1 keypoints2 ms =
     list_all (\<lambda>p. in_range keypoints1 (fst p) \<and> in_range keypoints2 (snd p)) ms"

subsection \<open>The ratio test as the specification words it\<close>

text \<open>
  These definitions follow the specification (section 4.1), not the code; the theorems on
  \<open>FindBestMatches\<close> compare the code with them.
\<close>

definition spec_dist :: "real list \<Rightarrow> real list \<Rightarrow> real" where
  \<comment> \<open>the angular distance \<^verbatim>\<open>acos(dot(d1, d2))\<close>\<close>
  "spec_dist d1 d2 = arccos (sum_list (map2 (*) d1 d2))"

definition distances_defined :: "real list \<Rightarrow> real list list \<Rightarrow> bool" where
  \<comment> \<open>every row of \<open>descriptors2\<close> is as long as \<open>d1\<close> and its dot product with \<open>d1\<close> is in
      \<open>[-1, 1]\<close>, as it is for unit vectors in exact arithmetic\<close>
  "distances_defined d1 descriptors2 =
     list_all (\<lambda>d2. length d1 = length d2 \<and>
       - 1 \<le> sum_list (map2 (*) d1 d2) \<and> sum_list (map2 (*) d1 d2) \<le> 1) descriptors2"

definition is_nearest :: "real list \<Rightarrow> real list list \<Rightarrow> nat \<Rightarrow> bool" where
  \<comment> \<open>\<open>j\<close> is the index of the closest row; among equally close rows, the first\<close>
  "is_nearest d1 descriptors2 j =
     (j < length descriptors2 \<and>
      (\<forall>k < length descriptors2. spec_dist d1 (descriptors2 ! j) \<le> spec_dist d1 (descriptors2 ! k)) \<and>
      (\<forall>k < j. spec_dist d1 (descriptors2 ! j) < spec_dist d1 (descriptors2 ! k)))"

definition is_second :: "real list \<Rightarrow> real list list \<Rightarrow> nat \<Rightarrow> nat \<Rightarrow> bool" where
  \<comment> \<open>\<open>s\<close> is the index of a second-closest row: a closest one among the rows other than \<open>j\<close>\<close>
  "is_second d1 descriptors2 j s =
     (s < length descriptors2 \<and> s \<noteq> j \<and>
      (\<forall>k < length descriptors2. k \<noteq> j \<longrightarrow>
         spec_dist d1 (descriptors2 ! s) \<le> spec_dist d1 (descriptors2 ! k)))"

definition ratio_defined :: "real list \<Rightarrow> real list list \<Rightarrow> bool" where
  \<comment> \<open>the second-smallest distance, the divisor of the ratio test, is not 0\<close>
  "ratio_defined d1 descriptors2 =
     (\<forall>j < length descriptors2. \<forall>s < length descriptors2.
        is_nearest d1 descriptors2 j \<and> is_second d1 descriptors2 j s \<longrightarrow>
        spec_dist d1 (descriptors2 ! s) \<noteq> 0)"

definition accepts :: "real list \<Rightarrow> real list list \<Rightarrow> real \<Rightarrow> nat \<Rightarrow> bool" where
  \<comment> \<open>the ratio test accepts the match of \<open>d1\<close> with row \<open>j\<close>: \<open>j\<close> is the nearest row and
      smallest distance / second-smallest distance \<open>\<le> threshold\<close>\<close>
  "accepts d1 descriptors2 threshold j =
     (\<exists>s < length descriptors2.
        is_nearest d1 descriptors2 j \<and> is_second d1 descriptors2 j s \<and>
        spec_dist d1 (descriptors2 ! j) / spec_dist d1 (descriptors2 ! s) \<le> threshold)"

section \<open>Properties\<close>

subsection \<open>Results and lookups\<close>

lemma bind_result_Inl [simp]: "bind_result (Inl e) f = Inl e"
  by (simp add: bind_result_def)

lemma bind_result_Inr [simp]: "bind_result (Inr x) f = f x"
  by (simp add: bind_result_def)

lemma py_index_in_range: "in_range xs i \<Longrightarrow> \<exists>x. py_index xs i = Inr x \<and> x \<in> set xs"
  by (auto simp: py_index_def in_range_def Let_def)

lemma py_index_cases: "py_index xs i = Inl IndexError \<or> (\<exists>x. py_index xs i = Inr x)"
  by (simp add: py_index_def Let_def)

text \<open>
  Both lookups of a pair read the same two rows, so they fail together, and the only
  exception of the two loops of \<open>RANSACFilter\<close> is the \<open>IndexError\<close> of a lookup.
\<close>

lemma lookups_cases:
  "(orient_diff k1 k2 p = Inl IndexError \<and> scale_ratio k1 k2 p = Inl IndexError) \<or>
   (\<exists>d r. orient_diff k1 k2 p = Inr d \<and> scale_ratio k1 k2 p = Inr r)"
  using py_index_cases [of k1 "fst p"] py_index_cases [of k2 "snd p"]
  by (auto simp: orient_diff_def scale_ratio_def)

lemma agrees_cases:
  "(orient_diff k1 k2 p = Inl IndexError \<and> agrees k1 k2 oa sa bo bs p = Inl IndexError) \<or>
   (\<exists>d r. orient_diff k1 k2 p = Inr d \<and> scale_ratio k1 k2 p = Inr r \<and>
      agrees k1 k2 oa sa bo bs p = Inr (\<bar>d - bo\<bar> \<le> oa \<and> abs_diff_le r bs sa))"
  using lookups_cases [of k1 k2 p] by (auto simp: agrees_def)

subsection \<open>RANSACFilter: the sample count\<close>

text \<open>
  C1 (as the claim states it, refuted). The claim says that the filter draws
  \<open>min 10 (len matches)\<close> samples and so does not fail on 1 to 9 matches. Line 33 asks
  \<^verbatim>\<open>random.sample\<close> for 10 elements whatever the length of the list: on a list of one
  match the call raises the sampler's \<open>ValueError\<close>.
\<close>

theorem RANSACFilter_one_match_fails:
  "RANSACFilter [0] [(0, 0)]
     [\<lparr>row = 0, col = 0, scale = 1, orientation = 0\<rparr>]
     [\<lparr>row = 0, col = 0, scale = 1, orientation = 0\<rparr>] 1 1 = Inl ValueError"
  by (simp add: RANSACFilter_def random_sample_def)

text \<open>
  C1 (amended). The sample count is always 10. With fewer than 10 matches (0 to 9) the
  call fails with the \<open>ValueError\<close> of the sampler; with 10 or more matches the sampler
  returns exactly 10 of the matches and the loop runs over them.
\<close>

theorem RANSACFilter_sample_count:
  "(length matched_pairs < 10 \<longrightarrow>
      RANSACFilter draw matched_pairs keypoints1 keypoints2 oa sa = Inl ValueError) \<and>
   (10 \<le> length matched_pairs \<and> valid_draw draw (length matched_pairs) 10 \<longrightarrow>
      (\<exists>sel. random_sample draw matched_pairs 10 = Inr sel \<and> length sel = 10 \<and>
         set sel \<subseteq> set matched_pairs \<and>
         RANSACFilter draw matched_pairs keypoints1 keypoints2 oa sa =
           filter_loop keypoints1 keypoints2 oa sa matched_pairs sel []))"
  by (auto simp: RANSACFilter_def random_sample_def valid_draw_def list_all_iff)

theorem RANSACFilter_sample_count_witness:
  "RANSACFilter [] [(0, 0), (1, 1), (2, 2)] [] [] 1 1 = Inl ValueError \<and>
   (\<exists>sel. random_sample [9, 8, 7, 6, 5, 4, 3, 2, 1, 0]
             [(0, 0), (1, 1), (2, 2), (3, 3), (4, 4), (5, 5), (6, 6), (7, 7), (8, 8),
              (9, 9) :: match] 10
           = Inr sel \<and> length sel = 10)"
proof -
  let ?three = "[(0, 0), (1, 1), (2, 2)] :: match list"
  let ?ten = "[(0, 0), (1, 1), (2, 2), (3, 3), (4, 4), (5, 5), (6, 6), (7, 7), (8, 8),
    (9, 9)] :: match list"
  let ?draw = "[9, 8, 7, 6, 5, 4, 3, 2, 1, 0] :: nat list"
  have small: "length ?three < 10"
    by simp
  have large: "10 \<le> length ?ten \<and> valid_draw ?draw (length ?ten) 10"
    by (simp add: valid_draw_def)
  from RANSACFilter_sample_count [of ?three "[]" "[]" "[]" 1 1] small
  have "RANSACFilter [] ?three [] [] 1 1 = Inl ValueError"
    by blast
  moreover from RANSACFilter_sample_count [of ?ten ?draw "[]" "[]" 1 1] large
  have "\<exists>sel. random_sample ?draw ?ten 10 = Inr sel \<and> length sel = 10"
    by blast
  ultimately show ?thesis by blast
qed

subsection \<open>RANSACFilter: looser thresholds\<close>

lemma abs_diff_le_mono: "abs_diff_le x y s \<Longrightarrow> s \<le> t \<Longrightarrow> abs_diff_le x y t"
  by (auto simp: abs_diff_le_def split: option.splits)

lemma agrees_mono:
  assumes "oa1 \<le> oa2" "sa1 \<le> sa2"
  shows "(agrees k1 k2 oa1 sa1 bo bs p = Inl IndexError \<and>
          agrees k1 k2 oa2 sa2 bo bs p = Inl IndexError) \<or>
     (\<exists>a b. agrees k1 k2 oa1 sa1 bo bs p = Inr a \<and> agrees k1 k2 oa2 sa2 bo bs p = Inr b \<and>
        (a \<longrightarrow> b))"
  using agrees_cases [of k1 k2 p oa1 sa1 bo bs] agrees_cases [of k1 k2 p oa2 sa2 bo bs] assms
  by (auto intro: abs_diff_le_mono)

text \<open>For one sample, the looser consensus set contains the tighter one.\<close>

lemma consensus_mono:
  assumes "oa1 \<le> oa2" "sa1 \<le> sa2"
  shows "(\<exists>e. consensus k1 k2 oa1 sa1 bo bs ps = Inl e \<and>
              consensus k1 k2 oa2 sa2 bo bs ps = Inl e) \<or>
     (\<exists>c1 c2. consensus k1 k2 oa1 sa1 bo bs ps = Inr c1 \<and>
        consensus k1 k2 oa2 sa2 bo bs ps = Inr c2 \<and>
        length c1 \<le> length c2 \<and> set c1 \<subseteq> set c2)"
proof (induction ps)
  case Nil
  show ?case by simp
next
  case (Cons p ps)
  from agrees_mono [OF assms, of k1 k2 bo bs p] Cons show ?case
    by (elim disjE exE conjE) (simp_all, auto)
qed

lemma filter_loop_mono:
  assumes "oa1 \<le> oa2" "sa1 \<le> sa2"
  shows "length l1 \<le> length l2 \<Longrightarrow>
     (\<exists>e. filter_loop k1 k2 oa1 sa1 mp ss l1 = Inl e \<and>
          filter_loop k1 k2 oa2 sa2 mp ss l2 = Inl e) \<or>
     (\<exists>r1 r2. filter_loop k1 k2 oa1 sa1 mp ss l1 = Inr r1 \<and>
        filter_loop k1 k2 oa2 sa2 mp ss l2 = Inr r2 \<and> length r1 \<le> length r2)"
proof (induction ss arbitrary: l1 l2)
  case Nil
  then show ?case by simp
next
  case (Cons s ss)
  from lookups_cases [of k1 k2 s] show ?case
  proof (elim disjE exE conjE)
    assume "orient_diff k1 k2 s = Inl IndexError"
    then show ?thesis by simp
  next
    fix d r
    assume dr: "orient_diff k1 k2 s = Inr d" "scale_ratio k1 k2 s = Inr r"
    from consensus_mono [OF assms, of k1 k2 d r mp] show ?thesis
    proof (elim disjE exE conjE)
      fix e
      assume "consensus k1 k2 oa1 sa1 d r mp = Inl e" "consensus k1 k2 oa2 sa2 d r mp = Inl e"
      with dr show ?thesis by simp
    next
      fix c1 c2
      assume c: "consensus k1 k2 oa1 sa1 d r mp = Inr c1"
        "consensus k1 k2 oa2 sa2 d r mp = Inr c2" "length c1 \<le> length c2"
      let ?n1 = "if length c1 > length l1 then c1 else l1"
      let ?n2 = "if length c2 > length l2 then c2 else l2"
      from c(3) Cons.prems have "length ?n1 \<le> length ?n2" by auto
      from Cons.IH [OF this] dr c(1,2) show ?thesis by simp
    qed
  qed
qed

text \<open>
  C8. With the same draw, the same matches and the same keypoints, raising both
  thresholds cannot shrink the answer: either both calls raise the same exception, or
  both return and the looser call's set is at least as long as the tighter call's. This
  is the second alternative of the claim (``a superset of, or at least equal in size
  to''), and it always holds; the sets of one sample are nested (\<open>consensus_mono\<close>),
  the two returned sets may come from different samples.
\<close>

theorem RANSACFilter_monotone:
  assumes "orient_agreement1 \<le> orient_agreement2" and "scale_agreement1 \<le> scale_agreement2"
  shows "(\<exists>e. RANSACFilter draw matched_pairs keypoints1 keypoints2
                 orient_agreement1 scale_agreement1 = Inl e \<and>
              RANSACFilter draw matched_pairs keypoints1 keypoints2
                 orient_agreement2 scale_agreement2 = Inl e) \<or>
         (\<exists>tight loose.
              RANSACFilter draw matched_pairs keypoints1 keypoints2
                 orient_agreement1 scale_agreement1 = Inr tight \<and>
              RANSACFilter draw matched_pairs keypoints1 keypoints2
                 orient_agreement2 scale_agreement2 = Inr loose \<and>
              length tight \<le> length loose)"
proof (cases "length matched_pairs < 10")
  case True
  then show ?thesis by (simp add: RANSACFilter_def random_sample_def)
next
  case False
  then show ?thesis
    using filter_loop_mono [OF assms, of "[]" "[]" keypoints1 keypoints2 matched_pairs
        "map (\<lambda>p. matched_pairs ! p) draw"]
    by (simp add: RANSACFilter_def random_sample_def)
qed

theorem RANSACFilter_monotone_witness:
  "(\<exists>e. RANSACFilter [0, 1, 2, 3, 4, 5, 6, 7, 8, 9]
          [(0, 0), (1, 0), (2, 0), (3, 0), (4, 0), (5, 0), (6, 0), (7, 0), (8, 0), (9, 0)]
          (map (\<lambda>i. \<lparr>row = 0, col = 0, scale = 1, orientation = real i\<rparr>) [0..<10])
          [\<lparr>row = 0, col = 0, scale = 1, orientation = 0\<rparr>] 0 0 = Inl e \<and>
        RANSACFilter [0, 1, 2, 3, 4, 5, 6, 7, 8, 9]
          [(0, 0), (1, 0), (2, 0), (3, 0), (4, 0), (5, 0), (6, 0), (7, 0), (8, 0), (9, 0)]
          (map (\<lambda>i. \<lparr>row = 0, col = 0, scale = 1, orientation = real i\<rparr>) [0..<10])
          [\<lparr>row = 0, col = 0, scale = 1, orientation = 0\<rparr>] 1 0 = Inl e) \<or>
   (\<exists>tight loose.
        RANSACFilter [0, 1, 2, 3, 4, 5, 6, 7, 8, 9]
          [(0, 0), (1, 0), (2, 0), (3, 0), (4, 0), (5, 0), (6, 0), (7, 0), (8, 0), (9, 0)]
          (map (\<lambda>i. \<lparr>row = 0, col = 0, scale = 1, orientation = real i\<rparr>) [0..<10])
          [\<lparr>row = 0, col = 0, scale = 1, orientation = 0\<rparr>] 0 0 = Inr tight \<and>
        RANSACFilter [0, 1, 2, 3, 4, 5, 6, 7, 8, 9]
          [(0, 0), (1, 0), (2, 0), (3, 0), (4, 0), (5, 0), (6, 0), (7, 0), (8, 0), (9, 0)]
          (map (\<lambda>i. \<lparr>row = 0, col = 0, scale = 1, orientation = real i\<rparr>) [0..<10])
          [\<lparr>row = 0, col = 0, scale = 1, orientation = 0\<rparr>] 1 0 = Inr loose \<and>
        length tight \<le> length loose)"
proof -
  have "(0 :: real) \<le> 1" and "(0 :: real) \<le> 0"
    by simp_all
  then show ?thesis
    by (rule RANSACFilter_monotone)
qed

text \<open>
  The first alternative, inclusion, is not a property of the returned sets. With
  threshold 0 the first sample wins with three matches of orientation 0; with threshold
  1 a later sample collects four matches of orientations 10 and 11 and replaces it.
\<close>

lemma RANSACFilter_superset_can_fail:
  "RANSACFilter [0, 1, 2, 3, 4, 5, 6, 7, 8, 9]
     [(0, 0), (1, 0), (2, 0), (3, 0), (4, 0), (5, 0), (6, 0), (7, 0), (8, 0), (9, 0)]
     (map (\<lambda>x. \<lparr>row = 0, col = 0, scale = 1, orientation = x\<rparr>)
        [0, 0, 0, 10, 10, 11, 11, 20, 30, 40])
     [\<lparr>row = 0, col = 0, scale = 1, orientation = 0\<rparr>] 0 0
   = Inr [(0, 0), (1, 0), (2, 0)] \<and>
   RANSACFilter [0, 1, 2, 3, 4, 5, 6, 7, 8, 9]
     [(0, 0), (1, 0), (2, 0), (3, 0), (4, 0), (5, 0), (6, 0), (7, 0), (8, 0), (9, 0)]
     (map (\<lambda>x. \<lparr>row = 0, col = 0, scale = 1, orientation = x\<rparr>)
        [0, 0, 0, 10, 10, 11, 11, 20, 30, 40])
     [\<lparr>row = 0, col = 0, scale = 1, orientation = 0\<rparr>] 1 0
   = Inr [(3, 0), (4, 0), (5, 0), (6, 0)]"
  by (simp add: RANSACFilter_def random_sample_def orient_diff_def scale_ratio_def py_index_def
      agrees_def abs_diff_le_def np_div_def)

subsection \<open>RANSACFilter: a sample is in its own consensus set\<close>

lemma lookups_valid:
  assumes "in_range k1 (fst p)" "in_range k2 (snd p)" "\<forall>k \<in> set k2. scale k \<noteq> 0"
  shows "\<exists>d r. orient_diff k1 k2 p = Inr d \<and> scale_ratio k1 k2 p = Inr (Some r)"
  using py_index_in_range [OF assms(1)] py_index_in_range [OF assms(2)] assms(3)
  by (auto simp: orient_diff_def scale_ratio_def np_div_def)

lemma agrees_self:
  assumes "orient_diff k1 k2 s = Inr d" "scale_ratio k1 k2 s = Inr (Some r)" "0 \<le> oa" "0 \<le> sa"
  shows "agrees k1 k2 oa sa d (Some r) s = Inr True"
  using assms by (simp add: agrees_def abs_diff_le_def)

lemma consensus_valid:
  assumes "valid_matches k1 k2 ps"
  shows "\<exists>c. consensus k1 k2 oa sa bo bs ps = Inr c \<and> set c \<subseteq> set ps \<and>
           (\<forall>p \<in> set ps. agrees k1 k2 oa sa bo bs p = Inr True \<longrightarrow> p \<in> set c)"
  using assms
proof (induction ps)
  case Nil
  show ?case by simp
next
  case (Cons p ps)
  from Cons.prems have "in_range k1 (fst p)" "in_range k2 (snd p)" "valid_matches k1 k2 ps"
    by (simp_all add: valid_matches_def)
  from py_index_in_range [OF this(1)] py_index_in_range [OF this(2)]
  have "orient_diff k1 k2 p \<noteq> Inl IndexError"
    by (auto simp: orient_diff_def)
  with agrees_cases [of k1 k2 p oa sa bo bs]
  obtain ok where ok: "agrees k1 k2 oa sa bo bs p = Inr ok"
    by auto
  from Cons.IH [OF \<open>valid_matches k1 k2 ps\<close>]
  obtain c where c: "consensus k1 k2 oa sa bo bs ps = Inr c" "set c \<subseteq> set ps"
    "\<forall>q \<in> set ps. agrees k1 k2 oa sa bo bs q = Inr True \<longrightarrow> q \<in> set c"
    by blast
  from ok c show ?case
    by auto
qed

lemma own_consensus:
  assumes "valid_matches k1 k2 mp" "\<forall>k \<in> set k2. scale k \<noteq> 0" "0 \<le> oa" "0 \<le> sa" "s \<in> set mp"
  shows "\<exists>d r c. orient_diff k1 k2 s = Inr d \<and> scale_ratio k1 k2 s = Inr (Some r) \<and>
           consensus k1 k2 oa sa d (Some r) mp = Inr c \<and> s \<in> set c \<and> set c \<subseteq> set mp"
proof -
  from assms(1,5) have "in_range k1 (fst s)" "in_range k2 (snd s)"
    by (auto simp: valid_matches_def list_all_iff)
  from lookups_valid [OF this assms(2)]
  obtain d r where dr: "orient_diff k1 k2 s = Inr d" "scale_ratio k1 k2 s = Inr (Some r)"
    by blast
  from consensus_valid [OF assms(1), of oa sa d "Some r"]
  obtain c where c: "consensus k1 k2 oa sa d (Some r) mp = Inr c" "set c \<subseteq> set mp"
    "\<forall>p \<in> set mp. agrees k1 k2 oa sa d (Some r) p = Inr True \<longrightarrow> p \<in> set c"
    by blast
  from agrees_self [OF dr assms(3,4)] c(3) assms(5) have "s \<in> set c"
    by blast
  with dr c show ?thesis
    by blast
qed

lemma filter_loop_valid:
  assumes "valid_matches k1 k2 mp" "\<forall>k \<in> set k2. scale k \<noteq> 0" "0 \<le> oa" "0 \<le> sa"
  shows "set ss \<subseteq> set mp \<Longrightarrow>
     \<exists>res. filter_loop k1 k2 oa sa mp ss l = Inr res \<and> set res \<subseteq> set mp \<union> set l \<and>
       (ss \<noteq> [] \<or> l \<noteq> [] \<longrightarrow> res \<noteq> [])"
proof (induction ss arbitrary: l)
  case Nil
  show ?case by simp
next
  case (Cons s ss)
  then have "s \<in> set mp" "set ss \<subseteq> set mp"
    by simp_all
  from own_consensus [OF assms this(1)]
  obtain d r c where c: "orient_diff k1 k2 s = Inr d" "scale_ratio k1 k2 s = Inr (Some r)"
    "consensus k1 k2 oa sa d (Some r) mp = Inr c" "s \<in> set c" "set c \<subseteq> set mp"
    by blast
  let ?l = "if length c > length l then c else l"
  from c(4) have nonempty: "?l \<noteq> []"
    by auto
  from Cons.IH [OF \<open>set ss \<subseteq> set mp\<close>, of ?l]
  obtain res where res: "filter_loop k1 k2 oa sa mp ss ?l = Inr res"
    "set res \<subseteq> set mp \<union> set ?l" "ss \<noteq> [] \<or> ?l \<noteq> [] \<longrightarrow> res \<noteq> []"
    by blast
  from res(2) c(5) have "set res \<subseteq> set mp \<union> set l"
    by (auto split: if_splits)
  moreover from res(3) nonempty have "res \<noteq> []"
    by blast
  moreover from c res(1) have "filter_loop k1 k2 oa sa mp (s # ss) l = Inr res"
    by simp
  ultimately show ?case
    by blast
qed

text \<open>
  C10 (as the claim states it, refuted). The claim speaks of every input with at least 10
  matches and non-negative thresholds. Line 38 divides by the scale of the row of
  \<open>keypoints2\<close> with no test of it: when that scale is 0 the hypothesized ratio is
  non-finite, and so is the ratio of every match that names the row, so the comparison of
  line 41 is false for every match, the sampled one included, every consensus set is
  empty, and the call returns the empty list. And a match that names no row of the
  keypoint arrays makes the call raise \<open>IndexError\<close> instead of returning.
\<close>

theorem RANSACFilter_zero_scale_empty:
  "RANSACFilter [0, 1, 2, 3, 4, 5, 6, 7, 8, 9]
     [(0, 0), (1, 0), (2, 0), (3, 0), (4, 0), (5, 0), (6, 0), (7, 0), (8, 0), (9, 0)]
     (map (\<lambda>i. \<lparr>row = 0, col = 0, scale = 1, orientation = real i\<rparr>) [0..<10])
     [\<lparr>row = 0, col = 0, scale = 0, orientation = 0\<rparr>] 1 1 = Inr [] \<and>
   RANSACFilter [0, 1, 2, 3, 4, 5, 6, 7, 8, 9]
     [(0, 0), (1, 0), (2, 0), (3, 0), (4, 0), (5, 0), (6, 0), (7, 0), (8, 0), (9, 1)]
     (map (\<lambda>i. \<lparr>row = 0, col = 0, scale = 1, orientation = real i\<rparr>) [0..<10])
     [\<lparr>row = 0, col = 0, scale = 1, orientation = 0\<rparr>] 1 1 = Inl IndexError"
  by (simp add: RANSACFilter_def random_sample_def orient_diff_def scale_ratio_def py_index_def
      agrees_def abs_diff_le_def np_div_def)

text \<open>
  C10 (amended). Take at least 10 matches, non-negative thresholds, a draw of 10 distinct
  positions, match indices that name rows of the keypoint arrays, and scales of
  \<open>keypoints2\<close> that are not 0. Then the call returns, its result is not empty and holds
  only input matches, and every sampled match is in the consensus set of its own
  hypothesis.
\<close>

theorem RANSACFilter_nonempty_subset:
  assumes "10 \<le> length matched_pairs"
    and "0 \<le> orient_agreement" and "0 \<le> scale_agreement"
    and "valid_draw draw (length matched_pairs) 10"
    and "valid_matches keypoints1 keypoints2 matched_pairs"
    and "\<forall>k \<in> set keypoints2. scale k \<noteq> 0"
  shows "(\<exists>res. RANSACFilter draw matched_pairs keypoints1 keypoints2
                  orient_agreement scale_agreement = Inr res \<and>
            res \<noteq> [] \<and> set res \<subseteq> set matched_pairs) \<and>
         (\<forall>p \<in> set draw. \<exists>d r c.
            orient_diff keypoints1 keypoints2 (matched_pairs ! p) = Inr d \<and>
            scale_ratio keypoints1 keypoints2 (matched_pairs ! p) = Inr (Some r) \<and>
            consensus keypoints1 keypoints2 orient_agreement scale_agreement d (Some r)
              matched_pairs = Inr c \<and>
            matched_pairs ! p \<in> set c)"
proof -
  let ?sel = "map (\<lambda>p. matched_pairs ! p) draw"
  from assms(4) have draw: "length draw = 10" "\<forall>p \<in> set draw. p < length matched_pairs"
    by (simp_all add: valid_draw_def list_all_iff)
  then have sel: "set ?sel \<subseteq> set matched_pairs" "?sel \<noteq> []"
    by auto
  from filter_loop_valid [OF assms(5,6,2,3) sel(1), of "[]"] sel(2)
  obtain res where "filter_loop keypoints1 keypoints2 orient_agreement scale_agreement
      matched_pairs ?sel [] = Inr res" "set res \<subseteq> set matched_pairs" "res \<noteq> []"
    by auto
  with assms(1) have first: "\<exists>res. RANSACFilter draw matched_pairs keypoints1 keypoints2
      orient_agreement scale_agreement = Inr res \<and> res \<noteq> [] \<and> set res \<subseteq> set matched_pairs"
    by (simp add: RANSACFilter_def random_sample_def)
  have "\<exists>d r c.
      orient_diff keypoints1 keypoints2 (matched_pairs ! p) = Inr d \<and>
      scale_ratio keypoints1 keypoints2 (matched_pairs ! p) = Inr (Some r) \<and>
      consensus keypoints1 keypoints2 orient_agreement scale_agreement d (Some r)
        matched_pairs = Inr c \<and>
      matched_pairs ! p \<in> set c" if "p \<in> set draw" for p
  proof -
    from that draw(2) have "matched_pairs ! p \<in> set matched_pairs"
      by simp
    from own_consensus [OF assms(5,6,2,3) this] show ?thesis
      by blast
  qed
  with first show ?thesis
    by blast
qed

theorem RANSACFilter_nonempty_subset_witness:
  "\<exists>res. RANSACFilter [3, 1, 4, 0, 5, 9, 2, 6, 8, 7]
            [(0, 0), (1, 1), (2, 2), (3, 3), (4, 4), (5, 5), (6, 6), (7, 7), (8, 8), (9, 9),
             (-1, 0)]
            (map (\<lambda>i. \<lparr>row = 0, col = 0, scale = 2, orientation = real i\<rparr>) [0..<10])
            (map (\<lambda>i. \<lparr>row = 0, col = 0, scale = 1 + real i, orientation = 0\<rparr>) [0..<10])
            0 0 = Inr res \<and>
          res \<noteq> [] \<and>
          set res \<subseteq> set [(0, 0), (1, 1), (2, 2), (3, 3), (4, 4), (5, 5), (6, 6), (7, 7),
            (8, 8), (9, 9), (-1, 0)]"
proof -
  let ?mp = "[(0, 0), (1, 1), (2, 2), (3, 3), (4, 4), (5, 5), (6, 6), (7, 7), (8, 8), (9, 9),
    (-1, 0)] :: match list"
  let ?k1 = "map (\<lambda>i. \<lparr>row = 0, col = 0, scale = 2, orientation = real i\<rparr>) [0..<10]"
  let ?k2 = "map (\<lambda>i. \<lparr>row = 0, col = 0, scale = 1 + real i, orientation = 0\<rparr>) [0..<10]"
  let ?draw = "[3, 1, 4, 0, 5, 9, 2, 6, 8, 7] :: nat list"
  have "10 \<le> length ?mp" and "(0 :: real) \<le> 0" and "(0 :: real) \<le> 0"
    and "valid_draw ?draw (length ?mp) 10"
    by (simp_all add: valid_draw_def)
  moreover have "valid_matches ?k1 ?k2 ?mp"
    by (simp add: valid_matches_def in_range_def)
  moreover have "\<forall>k \<in> set ?k2. scale k \<noteq> 0"
  proof
    fix k assume "k \<in> set ?k2"
    then obtain i :: nat where "k = \<lparr>row = 0, col = 0, scale = 1 + real i, orientation = 0\<rparr>"
      by auto
    moreover have "1 + real i \<noteq> 0"
      by linarith
    ultimately show "scale k \<noteq> 0"
      by simp
  qed
  ultimately show ?thesis
    using RANSACFilter_nonempty_subset [of ?mp 0 0 ?draw ?k1 ?k2] by blast
qed

subsection \<open>KeypointProjection\<close>

text \<open>
  C9. Projecting through the identity matrix returns every point as it is: the third
  component is \<open>0 * x + 0 * y + 1 * 1 = 1\<close>, so no row is non-finite, and the two
  quotients are \<open>x / 1\<close> and \<open>y / 1\<close>.
\<close>

theorem KeypointProjection_identity:
  "KeypointProjection xy_points (Some identity_matrix) = Inr (map Some xy_points)"
  by (simp add: KeypointProjection_def project_point_def identity_matrix_def split_def)

subsection \<open>RANSACHomography: the loop\<close>

lemmas homography_defs = RANSACHomography_def iteration_def refit_def random_sample_def
  take_rows_def KeypointProjection_def project_point_def identity_matrix_def norm_le_def

lemma homography_loop_result:
  "homography_loop solver draws xy_src xy_ref tol js l = Inr res \<Longrightarrow>
     length l \<le> length res \<and>
     (\<forall>i \<in> set js. \<exists>cur. iteration solver draws xy_src xy_ref tol i = Inr cur \<and>
        length cur \<le> length res) \<and>
     (res = l \<or> (\<exists>i \<in> set js. iteration solver draws xy_src xy_ref tol i = Inr res))"
proof (induction js arbitrary: l)
  case Nil
  then show ?case by simp
next
  case (Cons j js)
  show ?case
  proof (cases "iteration solver draws xy_src xy_ref tol j")
    case (Inl e)
    with Cons.prems show ?thesis by simp
  next
    case (Inr cur)
    let ?l = "if length cur > length l then cur else l"
    from Cons.prems Inr have "homography_loop solver draws xy_src xy_ref tol js ?l = Inr res"
      by simp
    from Cons.IH [OF this] have ih: "length ?l \<le> length res"
      "\<forall>i \<in> set js. \<exists>c. iteration solver draws xy_src xy_ref tol i = Inr c \<and>
         length c \<le> length res"
      "res = ?l \<or> (\<exists>i \<in> set js. iteration solver draws xy_src xy_ref tol i = Inr res)"
      by blast+
    from ih(1) have "length l \<le> length res" "length cur \<le> length res"
      by (auto split: if_splits)
    moreover from ih(3) Inr
    have "res = l \<or> (\<exists>i \<in> set (j # js). iteration solver draws xy_src xy_ref tol i = Inr res)"
      by (auto split: if_splits)
    ultimately show ?thesis
      using ih(2) Inr by auto
  qed
qed




subsection \<open>RANSACHomography: fewer than four inliers\<close>

text \<open>
  C2 (as the claim states it, refuted). The claim says that a best inlier set of fewer
  than 4 members makes the call fail with a \<open>NoConsensusError\<close>. The code has no such
  check and no such exception: line 145 hands the set to the solver whatever its size.
  Below, one iteration with tolerance 0 finds no inlier (the reference points are the
  source points moved by 5), so the best set is empty. With a solver that answers any
  input with a matrix, the call returns that matrix; with a solver that raises on fewer
  than 4 points, the solver's own exception is what the caller sees.
\<close>

theorem RANSACHomography_no_consensus_check:
  "homography_loop (\<lambda>src ref. Inr (Some identity_matrix)) (\<lambda>i. [0, 1, 2, 3])
     [(0, 0), (1, 0), (0, 1), (1, 1)] [(5, 5), (6, 5), (5, 6), (6, 6)] 0 [0..<nat 1] [] = Inr [] \<and>
   RANSACHomography (\<lambda>src ref. Inr (Some identity_matrix)) (\<lambda>i. [0, 1, 2, 3])
     [(0, 0), (1, 0), (0, 1), (1, 1)] [(5, 5), (6, 5), (5, 6), (6, 6)] 1 0 = Inr identity_matrix \<and>
   RANSACHomography
     (\<lambda>src ref. if length src < 4 then Inl Cv2Error else Inr (Some identity_matrix))
     (\<lambda>i. [0, 1, 2, 3])
     [(0, 0), (1, 0), (0, 1), (1, 1)] [(5, 5), (6, 5), (5, 6), (6, 6)] 1 0 = Inl Cv2Error"
  by (simp add: homography_defs)

text \<open>
  C2 (amended). When the best inlier set after the loop has fewer than 4 members, the
  estimator makes no check of its own: it passes that set to the external solver, and
  the outcome of the call is the solver's. An exception of the solver propagates, a
  \<^verbatim>\<open>None\<close> from the solver fails the assertion of line 148, and a matrix from the solver
  is returned.
\<close>

theorem RANSACHomography_small_set:
  assumes "length xy_src = length xy_ref"
    and "homography_loop solver draws xy_src xy_ref tol [0..<nat num_iter] [] = Inr largest_set"
    and "length largest_set < 4"
  shows "RANSACHomography solver draws xy_src xy_ref num_iter tol =
     (case solver (take_rows xy_src largest_set) (take_rows xy_ref largest_set) of
        Inl e \<Rightarrow> Inl e
      | Inr None \<Rightarrow> Inl AssertionError
      | Inr (Some m) \<Rightarrow> Inr m)"
  using assms(1,2)
  by (simp add: RANSACHomography_def refit_def bind_result_def split: sum.splits option.splits)

theorem RANSACHomography_small_set_witness:
  "RANSACHomography (\<lambda>src ref. if src = [] then Inr None else Inr (Some identity_matrix))
     (\<lambda>i. [0, 1, 2, 3])
     [(0, 0), (1, 0), (0, 1), (1, 1)] [(5, 5), (6, 5), (5, 6), (6, 6)] 1 0 =
   (case (if take_rows [(0, 0), (1, 0), (0, 1), (1, 1 :: real)] [] = ([] :: point list)
          then Inr None else Inr (Some identity_matrix)) of
      Inl e \<Rightarrow> Inl e
    | Inr None \<Rightarrow> Inl AssertionError
    | Inr (Some m) \<Rightarrow> Inr m)"
proof -
  let ?solver = "(\<lambda>src ref. if src = [] then Inr None else Inr (Some identity_matrix)) :: solver"
  let ?src = "[(0, 0), (1, 0), (0, 1), (1, 1)] :: point list"
  let ?ref = "[(5, 5), (6, 5), (5, 6), (6, 6)] :: point list"
  have "length ?src = length ?ref"
    by simp
  moreover have "homography_loop ?solver (\<lambda>i. [0, 1, 2, 3]) ?src ?ref 0 [0..<nat 1] [] = Inr []"
    by (simp add: homography_defs)
  moreover have "length ([] :: nat list) < 4"
    by simp
  ultimately show ?thesis
    by (rule RANSACHomography_small_set)
qed

subsection \<open>RANSACHomography: a degenerate sample\<close>




subsection \<open>RANSACHomography: the returned matrix\<close>

text \<open>
  C7. When the call returns a matrix \<open>h\<close>, that matrix is what the solver gave on the rows
  of \<open>largest_set\<close>, all of them, where \<open>largest_set\<close> is the set the loop ends with: no
  iteration's inlier set is longer, and it is the inlier set of one of the iterations
  (or empty, when no iteration found an inlier). The matrices fitted on the 4-point
  samples only enter \<open>iteration\<close>, which returns inlier indices and no matrix.
\<close>

theorem RANSACHomography_refit:
  assumes "RANSACHomography solver draws xy_src xy_ref num_iter tol = Inr h"
  shows "\<exists>largest_set.
     homography_loop solver draws xy_src xy_ref tol [0..<nat num_iter] [] = Inr largest_set \<and>
     solver (take_rows xy_src largest_set) (take_rows xy_ref largest_set) = Inr (Some h) \<and>
     (\<forall>i < nat num_iter. \<exists>cur. iteration solver draws xy_src xy_ref tol i = Inr cur \<and>
        length cur \<le> length largest_set) \<and>
     (largest_set = [] \<or>
      (\<exists>i < nat num_iter. iteration solver draws xy_src xy_ref tol i = Inr largest_set))"
proof -
  from assms obtain largest_set where
    loop: "homography_loop solver draws xy_src xy_ref tol [0..<nat num_iter] [] = Inr largest_set"
    and fit: "refit solver xy_src xy_ref largest_set = Inr h"
    by (auto simp: RANSACHomography_def bind_result_def split: if_splits sum.splits)
  from fit have "solver (take_rows xy_src largest_set) (take_rows xy_ref largest_set) = Inr (Some h)"
    by (auto simp: refit_def bind_result_def split: sum.splits option.splits)
  moreover from homography_loop_result [OF loop]
  have "\<forall>i < nat num_iter. \<exists>cur. iteration solver draws xy_src xy_ref tol i = Inr cur \<and>
        length cur \<le> length largest_set"
    and "largest_set = [] \<or>
      (\<exists>i < nat num_iter. iteration solver draws xy_src xy_ref tol i = Inr largest_set)"
    by auto
  ultimately show ?thesis
    using loop by blast
qed

theorem RANSACHomography_refit_witness:
  "\<exists>largest_set.
     homography_loop
       (\<lambda>src ref. if length src < 4 then Inl Cv2Error
          else if length src = 4 then Inr (Some identity_matrix)
          else Inr (Some ((2, 0, 0), (0, 2, 0), (0, 0, 2))))
       (\<lambda>i. [0, 1, 2, 3])
       [(0, 0), (1, 0), (0, 1), (1, 1), (2, 2)] [(0, 0), (1, 0), (0, 1), (1, 1), (2, 2)] 0
       [0..<nat 1] [] = Inr largest_set \<and>
     (if length (take_rows [(0, 0), (1, 0), (0, 1), (1, 1), (2, 2 :: real)] largest_set :: point list) < 4
      then Inl Cv2Error
      else if length (take_rows [(0, 0), (1, 0), (0, 1), (1, 1), (2, 2 :: real)] largest_set :: point list) = 4
      then Inr (Some identity_matrix)
      else Inr (Some ((2, 0, 0), (0, 2, 0), (0, 0, 2)))) = Inr (Some ((2, 0, 0), (0, 2, 0), (0, 0, 2))) \<and>
     length largest_set = 5"
proof -
  let ?solver = "(\<lambda>src ref. if length src < 4 then Inl Cv2Error
          else if length src = 4 then Inr (Some identity_matrix)
          else Inr (Some ((2, 0, 0), (0, 2, 0), (0, 0, 2)))) :: solver"
  let ?pts = "[(0, 0), (1, 0), (0, 1), (1, 1), (2, 2)] :: point list"
  have run: "RANSACHomography ?solver (\<lambda>i. [0, 1, 2, 3]) ?pts ?pts 1 0 =
      Inr ((2, 0, 0), (0, 2, 0), (0, 0, 2))"
    by (simp add: homography_defs)
  have loop: "homography_loop ?solver (\<lambda>i. [0, 1, 2, 3]) ?pts ?pts 0 [0..<nat 1] [] =
      Inr [0, 1, 2, 3, 4]"
    by (simp add: homography_defs)
  from RANSACHomography_refit [OF run] loop show ?thesis
    by auto
qed

subsection \<open>FindBestMatches: the sorted list\<close>

lemma angular_defined:
  assumes "length d1 = length d2" "- 1 \<le> sum_list (map2 (*) d1 d2)" "sum_list (map2 (*) d1 d2) \<le> 1"
  shows "angular d1 d2 = Inr (spec_dist d1 d2)"
  using assms by (simp add: angular_def np_dot_def math_acos_def spec_dist_def)

lemma sort_keys_defined:
  "\<forall>e \<in> set es. angular d1 (snd e) = Inr (spec_dist d1 (snd e)) \<Longrightarrow>
   sort_keys d1 es = Inr (map (\<lambda>e. spec_dist d1 (snd e)) es)"
  by (induction es) simp_all

lemma insort_key_decorated:
  "insort_key snd (x, f x) (map (\<lambda>y. (y, f y)) ys) = map (\<lambda>y. (y, f y)) (insort_key f x ys)"
  by (induction ys) simp_all

lemma sort_key_decorated:
  "map fst (sort_key snd (zip xs (map f xs))) = sort_key f xs"
proof -
  have "sort_key snd (map (\<lambda>y. (y, f y)) xs) = map (\<lambda>y. (y, f y)) (sort_key f xs)"
    by (induction xs) (simp_all add: insort_key_decorated)
  moreover have "zip xs (map f xs) = map (\<lambda>y. (y, f y)) xs"
    by (induction xs) simp_all
  ultimately show ?thesis
    by (simp add: comp_def)
qed

lemma sorted_by_distance_defined:
  assumes "distances_defined d1 descriptors2"
  shows "sorted_by_distance d1 descriptors2 =
     Inr (sort_key (\<lambda>e. spec_dist d1 (snd e)) (enumerate 0 descriptors2))"
proof -
  from assms have "\<forall>e \<in> set (enumerate 0 descriptors2). angular d1 (snd e) = Inr (spec_dist d1 (snd e))"
    by (auto simp: distances_defined_def list_all_iff in_set_enumerate_eq intro!: angular_defined)
  from sort_keys_defined [OF this] show ?thesis
    by (simp add: sorted_by_distance_def sort_key_decorated)
qed

text \<open>The head of a stable sort is the first element with the least key.\<close>

lemma hd_filter_first:
  assumes "distinct xs" "j < length xs" "filter P xs \<noteq> []" "hd (filter P xs) = xs ! j" "i < j"
  shows "\<not> P (xs ! i)"
proof
  assume "P (xs ! i)"
  have xs: "xs = take j xs @ drop j xs"
    by simp
  from \<open>i < j\<close> \<open>j < length xs\<close> have "xs ! i \<in> set (take j xs)"
    by (metis in_set_conv_nth length_take min.absorb2 nth_take order_less_imp_le)
  with \<open>P (xs ! i)\<close> have ne: "filter P (take j xs) \<noteq> []"
    by (auto simp: filter_empty_conv)
  have "filter P xs = filter P (take j xs) @ filter P (drop j xs)"
    by (metis xs filter_append)
  with ne have "hd (filter P xs) = hd (filter P (take j xs))"
    by simp
  with ne have "hd (filter P xs) \<in> set (take j xs)"
    by (metis filter_is_subset hd_in_set subsetD)
  with assms(4) have "xs ! j \<in> set (take j xs)"
    by simp
  then obtain m where "m < j" "xs ! m = xs ! j"
    by (metis in_set_conv_nth length_take min_less_iff_conj nth_take)
  with assms(1,2) show False
    by (simp add: nth_eq_iff_index_eq)
qed

lemma sort_key_head_first:
  assumes "distinct xs" "j < length xs" "sort_key f xs ! 0 = xs ! j" "i < j"
  shows "f (xs ! i) \<noteq> f (xs ! j)"
proof
  assume eq: "f (xs ! i) = f (xs ! j)"
  let ?P = "\<lambda>y. f y = f (xs ! j)"
  from assms(2) have "sort_key f xs \<noteq> []"
    by (metis length_sort less_nat_zero_code list.size(3))
  then obtain y ys where srt: "sort_key f xs = y # ys"
    by (cases "sort_key f xs") auto
  with assms(3) have "y = xs ! j"
    by simp
  with srt have "hd (filter ?P (sort_key f xs)) = xs ! j" "filter ?P (sort_key f xs) \<noteq> []"
    by simp_all
  then have "hd (filter ?P xs) = xs ! j" "filter ?P xs \<noteq> []"
    by (simp_all add: sort_key_stable)
  from hd_filter_first [OF assms(1,2) this(2,1) assms(4)] eq show False
    by simp
qed

subsection \<open>FindBestMatches: one row\<close>

lemma is_nearest_unique:
  "is_nearest d1 d2s j \<Longrightarrow> is_nearest d1 d2s j' \<Longrightarrow> j = j'"
proof (rule ccontr)
  assume near: "is_nearest d1 d2s j" "is_nearest d1 d2s j'" and "j \<noteq> j'"
  then consider "j < j'" | "j' < j"
    by linarith
  then show False
  proof cases
    case 1
    with near(2) have "spec_dist d1 (d2s ! j') < spec_dist d1 (d2s ! j)"
      by (simp add: is_nearest_def)
    moreover from near have "spec_dist d1 (d2s ! j) \<le> spec_dist d1 (d2s ! j')"
      by (simp add: is_nearest_def)
    ultimately show False
      by simp
  next
    case 2
    with near(1) have "spec_dist d1 (d2s ! j) < spec_dist d1 (d2s ! j')"
      by (simp add: is_nearest_def)
    moreover from near have "spec_dist d1 (d2s ! j') \<le> spec_dist d1 (d2s ! j)"
      by (simp add: is_nearest_def)
    ultimately show False
      by simp
  qed
qed

lemma is_second_dist_unique:
  "is_second d1 d2s j s \<Longrightarrow> is_second d1 d2s j s' \<Longrightarrow>
   spec_dist d1 (d2s ! s) = spec_dist d1 (d2s ! s')"
proof -
  assume a: "is_second d1 d2s j s" and b: "is_second d1 d2s j s'"
  from a b have "spec_dist d1 (d2s ! s) \<le> spec_dist d1 (d2s ! s')"
    by (simp add: is_second_def)
  moreover from a b have "spec_dist d1 (d2s ! s') \<le> spec_dist d1 (d2s ! s)"
    by (simp add: is_second_def)
  ultimately show ?thesis
    by simp
qed

lemma best_match_spec:
  assumes dd: "distances_defined d1 d2s" and two: "2 \<le> length d2s"
    and ratio: "ratio_defined d1 d2s"
  shows "\<exists>j s. is_nearest d1 d2s j \<and> is_second d1 d2s j s \<and>
     best_match d1 d2s t =
       Inr (if spec_dist d1 (d2s ! j) / spec_dist d1 (d2s ! s) \<le> t then Some j else None)"
proof -
  let ?n = "length d2s"
  let ?xs = "enumerate 0 d2s"
  let ?f = "\<lambda>e :: nat \<times> real list. spec_dist d1 (snd e)"
  let ?srt = "sort_key ?f ?xs"
  have len: "length ?srt = ?n" "length ?xs = ?n"
    by simp_all
  have xs_nth: "?xs ! k = (k, d2s ! k)" if "k < ?n" for k
    using that by (simp add: nth_enumerate_eq)
  have pos: "\<exists>k < ?n. ?srt ! m = ?xs ! k" if "m < ?n" for m
  proof -
    from that len have "?srt ! m \<in> set ?srt"
      by (metis nth_mem)
    then have "?srt ! m \<in> set ?xs"
      by simp
    then show ?thesis
      by (metis in_set_conv_nth len(2))
  qed
  have located: "\<exists>m < ?n. ?srt ! m = ?xs ! k" if "k < ?n" for k
  proof -
    from that len have "?xs ! k \<in> set ?xs"
      by (metis nth_mem)
    then have "?xs ! k \<in> set ?srt"
      by simp
    then show ?thesis
      by (metis in_set_conv_nth len(1))
  qed
  from two have large: "0 < ?n" "1 < ?n"
    by linarith+
  from pos [OF large(1)] obtain j where j: "j < ?n" "?srt ! 0 = ?xs ! j"
    by auto
  from pos [OF large(2)] obtain s where s: "s < ?n" "?srt ! 1 = ?xs ! s"
    by auto
  have dsrt: "distinct ?srt"
    by simp
  from nth_eq_iff_index_eq [OF dsrt, of 0 1] large len have "?srt ! 0 \<noteq> ?srt ! 1"
    by simp
  with j s have sj: "s \<noteq> j"
    by auto
  have sorted: "sorted (map ?f ?srt)"
    by simp
  have mono: "?f (?srt ! a) \<le> ?f (?srt ! b)" if "a \<le> b" "b < ?n" for a b
    using sorted_nth_mono [OF sorted, of a b] that len by simp
  have least: "spec_dist d1 (d2s ! j) \<le> spec_dist d1 (d2s ! k)" if "k < ?n" for k
  proof -
    from located [OF that] obtain m where "m < ?n" "?srt ! m = ?xs ! k"
      by blast
    with mono [of 0 m] j xs_nth that show ?thesis
      by simp
  qed
  have next_least: "spec_dist d1 (d2s ! s) \<le> spec_dist d1 (d2s ! k)" if "k < ?n" "k \<noteq> j" for k
  proof -
    from located [OF that(1)] obtain m where m: "m < ?n" "?srt ! m = ?xs ! k"
      by blast
    have "m \<noteq> 0"
    proof
      assume "m = 0"
      with m j have "?xs ! k = ?xs ! j"
        by simp
      with xs_nth [OF that(1)] xs_nth [OF j(1)] that(2) show False
        by simp
    qed
    then have "1 \<le> m"
      by simp
    from mono [OF this m(1)] m s xs_nth that show ?thesis
      by simp
  qed
  have first: "spec_dist d1 (d2s ! j) < spec_dist d1 (d2s ! k)" if "k < j" for k
  proof -
    from that j have "k < ?n"
      by simp
    have "distinct ?xs"
      by simp
    from sort_key_head_first [OF this, of j ?f k] j len that
    have "?f (?xs ! k) \<noteq> ?f (?xs ! j)"
      by simp
    with xs_nth \<open>k < ?n\<close> j least [OF \<open>k < ?n\<close>] show ?thesis
      by simp
  qed
  from j least first have near: "is_nearest d1 d2s j"
    by (simp add: is_nearest_def)
  from s sj next_least have second: "is_second d1 d2s j s"
    by (simp add: is_second_def)
  from ratio near second j s have nz: "spec_dist d1 (d2s ! s) \<noteq> 0"
    by (simp add: ratio_defined_def)
  have ang: "angular d1 (d2s ! k) = Inr (spec_dist d1 (d2s ! k))" if "k < ?n" for k
  proof -
    from that have "d2s ! k \<in> set d2s"
      by simp
    with dd show ?thesis
      by (auto simp: distances_defined_def list_all_iff intro!: angular_defined)
  qed
  from large len have idx: "py_index ?srt 0 = Inr (?srt ! 0)" "py_index ?srt 1 = Inr (?srt ! 1)"
    by (simp_all add: py_index_def)
  have "best_match d1 d2s t =
       Inr (if spec_dist d1 (d2s ! j) / spec_dist d1 (d2s ! s) \<le> t then Some j else None)"
    unfolding best_match_def sorted_by_distance_defined [OF dd]
    using idx j s xs_nth ang nz by (simp add: py_div_def)
  with near second show ?thesis
    by blast
qed

lemma best_match_accepts:
  assumes "distances_defined d1 d2s" "2 \<le> length d2s" "ratio_defined d1 d2s"
  shows "\<exists>m. best_match d1 d2s t = Inr m \<and> (\<forall>j. m = Some j \<longleftrightarrow> accepts d1 d2s t j)"
proof -
  from best_match_spec [OF assms, of t] obtain j s where
    near: "is_nearest d1 d2s j" and second: "is_second d1 d2s j s" and
    res: "best_match d1 d2s t =
       Inr (if spec_dist d1 (d2s ! j) / spec_dist d1 (d2s ! s) \<le> t then Some j else None)"
    by blast
  let ?m = "if spec_dist d1 (d2s ! j) / spec_dist d1 (d2s ! s) \<le> t then Some j else None"
  have "?m = Some j' \<longleftrightarrow> accepts d1 d2s t j'" for j'
  proof
    assume "?m = Some j'"
    then have "j' = j" "spec_dist d1 (d2s ! j) / spec_dist d1 (d2s ! s) \<le> t"
      by (auto split: if_splits)
    moreover from second have "s < length d2s"
      by (simp add: is_second_def)
    ultimately show "accepts d1 d2s t j'"
      using near second unfolding accepts_def by blast
  next
    assume "accepts d1 d2s t j'"
    then obtain s' where a: "is_nearest d1 d2s j'" "is_second d1 d2s j' s'"
      "spec_dist d1 (d2s ! j') / spec_dist d1 (d2s ! s') \<le> t"
      unfolding accepts_def by blast
    from is_nearest_unique [OF a(1) near] have same: "j' = j" .
    with a(2) have "is_second d1 d2s j s'"
      by simp
    from is_second_dist_unique [OF this second] a(3) same show "?m = Some j'"
      by simp
  qed
  with res show ?thesis
    by blast
qed

subsection \<open>FindBestMatches: the ratio test\<close>

lemmas matcher_defs = FindBestMatches_def best_match_def sorted_by_distance_def angular_def
  np_dot_def math_acos_def py_index_def py_div_def enumerate_eq_zip

lemma match_loop_spec:
  assumes "2 \<le> length d2s"
  shows "\<forall>d1 \<in> set ds. distances_defined d1 d2s \<and> ratio_defined d1 d2s \<Longrightarrow>
     \<exists>ms. match_loop i0 ds d2s t = Inr ms \<and> sorted_wrt (<) (map fst ms) \<and>
       (\<forall>p \<in> set ms. int i0 \<le> fst p) \<and>
       (\<forall>i j. (i, j) \<in> set ms \<longleftrightarrow>
          (\<exists>m jn. m < length ds \<and> i = int (i0 + m) \<and> j = int jn \<and> accepts (ds ! m) d2s t jn))"
proof (induction ds arbitrary: i0)
  case Nil
  show ?case by simp
next
  case (Cons d ds)
  from Cons.prems have d: "distances_defined d d2s" "ratio_defined d d2s"
    and rest: "\<forall>d1 \<in> set ds. distances_defined d1 d2s \<and> ratio_defined d1 d2s"
    by simp_all
  from best_match_accepts [OF d(1) assms d(2), of t]
  obtain m where m: "best_match d d2s t = Inr m" "\<forall>j. m = Some j \<longleftrightarrow> accepts d d2s t j"
    by blast
  from Cons.IH [OF rest, of "Suc i0"]
  obtain ms where ms: "match_loop (Suc i0) ds d2s t = Inr ms" "sorted_wrt (<) (map fst ms)"
    "\<forall>p \<in> set ms. int (Suc i0) \<le> fst p"
    "\<forall>i j. (i, j) \<in> set ms \<longleftrightarrow>
       (\<exists>k jn. k < length ds \<and> i = int (Suc i0 + k) \<and> j = int jn \<and> accepts (ds ! k) d2s t jn)"
    by blast
  let ?out = "case m of Some j \<Rightarrow> (int i0, int j) # ms | None \<Rightarrow> ms"
  from m(1) ms(1) have run: "match_loop i0 (d # ds) d2s t = Inr ?out"
    by simp
  from ms(2,3) have srt: "sorted_wrt (<) (map fst ?out)"
    by (auto split: option.splits)
  from ms(3) have low: "\<forall>p \<in> set ?out. int i0 \<le> fst p"
    by (auto split: option.splits)
  have mem: "(i, j) \<in> set ?out \<longleftrightarrow>
      (\<exists>k jn. k < length (d # ds) \<and> i = int (i0 + k) \<and> j = int jn \<and>
         accepts ((d # ds) ! k) d2s t jn)" (is "?L \<longleftrightarrow> ?R") for i j
  proof
    assume ?L
    then consider (head) jn where "m = Some jn" "i = int i0" "j = int jn"
      | (tail) "(i, j) \<in> set ms"
      by (auto split: option.splits)
    then show ?R
    proof cases
      case head
      with m(2) have "accepts d d2s t jn"
        by blast
      with head show ?thesis
        by (intro exI [of _ 0] exI [of _ jn]) simp
    next
      case tail
      with ms(4) obtain k jn where "k < length ds" "i = int (Suc i0 + k)" "j = int jn"
        "accepts (ds ! k) d2s t jn"
        by blast
      then show ?thesis
        by (intro exI [of _ "Suc k"] exI [of _ jn]) simp
    qed
  next
    assume ?R
    then obtain k jn where k: "k < length (d # ds)" "i = int (i0 + k)" "j = int jn"
      "accepts ((d # ds) ! k) d2s t jn"
      by blast
    show ?L
    proof (cases k)
      case 0
      with k m(2) have "m = Some jn"
        by auto
      with k 0 show ?thesis
        by simp
    next
      case (Suc k')
      with k have "k' < length ds" "i = int (Suc i0 + k')" "accepts (ds ! k') d2s t jn"
        by simp_all
      with ms(4) k(3) have "(i, j) \<in> set ms"
        by blast
      then show ?thesis
        by (auto split: option.splits)
    qed
  qed
  from run srt low mem show ?case
    by blast
qed

text \<open>
  C6 (as the claim states it, refuted). The claim speaks of every \<open>d1\<close> once
  \<open>descriptors2\<close> has two entries. When two rows of \<open>descriptors2\<close> are at distance 0 from
  \<open>d1\<close> the second-smallest distance is 0, and the division of line 77, a division of
  Python floats, raises \<open>ZeroDivisionError\<close>: the call returns no list at all. The
  descriptors below are unit vectors.
\<close>

theorem FindBestMatches_zero_second_distance:
  "FindBestMatches [[1, 0]] [[1, 0], [1, 0], [0, 1]] (1 / 2) = Inl ZeroDivisionError"
  by (simp add: matcher_defs)

text \<open>
  C6 (amended). Let \<open>descriptors2\<close> have at least 2 entries, let every compared dot
  product be defined and in \<open>[-1, 1]\<close> (as for unit vectors of one length), and let the
  second-smallest distance of every \<open>d1\<close> be different from 0. Then the call returns, and
  its list holds the pair \<open>(i, j)\<close> exactly when \<open>i\<close> is an index of \<open>descriptors1\<close>, \<open>j\<close> is
  the index of the nearest row of \<open>descriptors2\<close> (the first one among equally near rows)
  and smallest distance / second-smallest distance \<open>\<le> threshold\<close>. The first components
  increase strictly along the list: at most one pair for each \<open>i\<close>, in ascending order.
\<close>

theorem FindBestMatches_ratio_test:
  assumes "2 \<le> length descriptors2"
    and "\<forall>d1 \<in> set descriptors1. distances_defined d1 descriptors2"
    and "\<forall>d1 \<in> set descriptors1. ratio_defined d1 descriptors2"
  shows "\<exists>ms. FindBestMatches descriptors1 descriptors2 threshold = Inr ms \<and>
     sorted_wrt (<) (map fst ms) \<and>
     (\<forall>i j. (i, j) \<in> set ms \<longleftrightarrow>
        (\<exists>m jn. m < length descriptors1 \<and> i = int m \<and> j = int jn \<and>
           accepts (descriptors1 ! m) descriptors2 threshold jn))"
proof -
  from assms(2,3)
  have "\<forall>d1 \<in> set descriptors1. distances_defined d1 descriptors2 \<and> ratio_defined d1 descriptors2"
    by blast
  from match_loop_spec [OF assms(1) this, of 0 threshold] show ?thesis
    unfolding FindBestMatches_def by auto
qed

lemma pi_not_le_zero: "\<not> pi \<le> 0"
  by (simp add: not_le)

theorem FindBestMatches_ratio_test_witness:
  "\<exists>ms. FindBestMatches [[1, 0], [0, 1], [0, - 1]] [[0, 1], [1, 0], [- 1, 0]] (1 / 2) = Inr ms \<and>
     sorted_wrt (<) (map fst ms) \<and>
     (\<forall>i j. (i, j) \<in> set ms \<longleftrightarrow>
        (\<exists>m jn. m < length [[1, 0], [0, 1], [0, - 1 :: real]] \<and> i = int m \<and> j = int jn \<and>
           accepts ([[1, 0], [0, 1], [0, - 1]] ! m) [[0, 1], [1, 0], [- 1, 0]] (1 / 2) jn))"
proof -
  let ?d1s = "[[1, 0], [0, 1], [0, - 1]] :: real list list"
  let ?d2s = "[[0, 1], [1, 0], [- 1, 0]] :: real list list"
  have "2 \<le> length ?d2s"
    by simp
  moreover have "\<forall>d1 \<in> set ?d1s. distances_defined d1 ?d2s"
    by (simp add: distances_defined_def)
  moreover have "\<forall>d1 \<in> set ?d1s. ratio_defined d1 ?d2s"
    by (simp add: ratio_defined_def is_nearest_def is_second_def spec_dist_def All_less_Suc
        numeral_3_eq_3 pi_not_le_zero)
  ultimately show ?thesis
    by (rule FindBestMatches_ratio_test)
qed

lemma FindBestMatches_example:
  "FindBestMatches [[1, 0], [0, 1], [0, - 1]] [[0, 1], [1, 0], [- 1, 0]] (1 / 2) =
     Inr [(0, 1), (1, 0)]"
  by (simp add: matcher_defs pi_not_le_zero)

subsection \<open>FindBestMatches: fewer than two rows in descriptors2\<close>

text \<open>
  C5 (as the claim states it, refuted). The claim says that with fewer than 2 entries in
  \<open>descriptors2\<close> the call completes and omits the match. Line 77 reads
  \<^verbatim>\<open>descriptors2_sorted[0]\<close> and \<^verbatim>\<open>descriptors2_sorted[1]\<close> with no test of the length: with one
  entry, and with none, the call raises \<open>IndexError\<close>.
\<close>

theorem FindBestMatches_short_descriptors2_fails:
  "FindBestMatches [[1, 0]] [[1, 0]] (1 / 2) = Inl IndexError \<and>
   FindBestMatches [[1, 0]] [] (1 / 2) = Inl IndexError"
  by (simp add: matcher_defs)

text \<open>
  C5 (amended). With fewer than 2 entries in \<open>descriptors2\<close> the call returns the empty
  list only when \<open>descriptors1\<close> is empty. Otherwise it fails at the first row of
  \<open>descriptors1\<close>: with \<open>IndexError\<close>, or, when \<open>descriptors2\<close> has one entry whose distance
  to that row cannot be computed, with the exception of that computation.
\<close>

theorem FindBestMatches_short_descriptors2:
  assumes "length descriptors2 < 2"
  shows "FindBestMatches descriptors1 descriptors2 threshold =
     (case descriptors1 of
        [] \<Rightarrow> Inr []
      | d1 # rest \<Rightarrow>
          (case descriptors2 of
             [] \<Rightarrow> Inl IndexError
           | d2 # other \<Rightarrow>
               (case angular d1 d2 of Inl e \<Rightarrow> Inl e | Inr a \<Rightarrow> Inl IndexError)))"
proof (cases descriptors1)
  case Nil
  then show ?thesis
    by (simp add: FindBestMatches_def)
next
  case (Cons d1 rest)
  show ?thesis
  proof (cases descriptors2)
    case Nil
    with Cons show ?thesis
      by (simp add: FindBestMatches_def best_match_def sorted_by_distance_def py_index_def)
  next
    case (Cons d2 other)
    with assms have other: "other = []"
      by simp
    show ?thesis
    proof (cases "angular d1 d2")
      case (Inl e)
      with \<open>descriptors1 = d1 # rest\<close> Cons other show ?thesis
        by (simp add: FindBestMatches_def best_match_def sorted_by_distance_def)
    next
      case (Inr a)
      with \<open>descriptors1 = d1 # rest\<close> Cons other show ?thesis
        by (simp add: FindBestMatches_def best_match_def sorted_by_distance_def py_index_def)
    qed
  qed
qed

theorem FindBestMatches_short_descriptors2_witness:
  "FindBestMatches [[1, 0], [0, 1]] [[0, 1]] (1 / 2) = Inl IndexError"
proof -
  have "length [[0, 1 :: real]] < 2"
    by simp
  from FindBestMatches_short_descriptors2 [OF this, of "[[1, 0], [0, 1]]" "1 / 2"]
  show ?thesis
    by (simp add: angular_def np_dot_def math_acos_def)
qed

subsection \<open>FindBestMatches: the domain of acos\<close>

text \<open>
  C4 (as the claim states it, refuted). The claim says that the dot product is clamped to
  \<open>[-1, 1]\<close> before \<^verbatim>\<open>acos\<close>. Lines 76 and 77 pass \<^verbatim>\<open>np.dot(...)\<close> to \<^verbatim>\<open>math.acos\<close> as it is.
  Exact arithmetic has no rounding, so the overshoot below is a row of norm 2: its dot
  product with the first row of \<open>descriptors2\<close> is 2, a clamp would make it 1 (distance
  0, ratio 0, the match \<open>(0, 0)\<close>), and the code raises the domain error of \<^verbatim>\<open>acos\<close>.
\<close>

theorem FindBestMatches_no_clamp:
  "FindBestMatches [[2, 0]] [[1, 0], [0, 1]] (1 / 2) = Inl MathDomainError"
  by (simp add: matcher_defs)

lemma angular_cases:
  "angular d1 d2 =
     (if length d1 \<noteq> length d2 then Inl ValueError
      else if - 1 \<le> sum_list (map2 (*) d1 d2) \<and> sum_list (map2 (*) d1 d2) \<le> 1
      then Inr (spec_dist d1 d2) else Inl MathDomainError)"
  by (simp add: angular_def np_dot_def math_acos_def spec_dist_def)

lemma sort_keys_domain_error:
  assumes "\<forall>e \<in> set es. length d1 = length (snd e)"
    and "\<exists>e \<in> set es. \<not> (- 1 \<le> sum_list (map2 (*) d1 (snd e)) \<and> sum_list (map2 (*) d1 (snd e)) \<le> 1)"
  shows "sort_keys d1 es = Inl MathDomainError"
  using assms
proof (induction es)
  case Nil
  then show ?case by simp
next
  case (Cons e es)
  show ?case
  proof (cases "- 1 \<le> sum_list (map2 (*) d1 (snd e)) \<and> sum_list (map2 (*) d1 (snd e)) \<le> 1")
    case True
    with Cons.prems have "sort_keys d1 es = Inl MathDomainError"
      by (intro Cons.IH) auto
    moreover from True Cons.prems(1) have "angular d1 (snd e) = Inr (spec_dist d1 (snd e))"
      unfolding angular_cases by auto
    ultimately show ?thesis
      by simp
  next
    case False
    with Cons.prems(1) have "angular d1 (snd e) = Inl MathDomainError"
      unfolding angular_cases by auto
    then show ?thesis
      by simp
  qed
qed

lemma sort_keys_error_source:
  "sort_keys d1 es = Inl MathDomainError \<Longrightarrow>
     \<exists>e \<in> set es. angular d1 (snd e) = Inl MathDomainError"
proof (induction es)
  case Nil
  then show ?case by simp
next
  case (Cons e es)
  then show ?case
    by (cases "angular d1 (snd e)"; cases "sort_keys d1 es") auto
qed

lemma py_index_member:
  "py_index xs i = Inl IndexError \<or> (\<exists>x \<in> set xs. py_index xs i = Inr x)"
  by (auto simp: py_index_def Let_def)

lemma ratio_step_error_source:
  fixes srt :: "(nat \<times> real list) list"
  assumes run: "bind_result (py_index srt 0) (\<lambda>best.
     bind_result (angular d1 (snd best)) (\<lambda>a.
     bind_result (py_index srt 1) (\<lambda>second.
     bind_result (angular d1 (snd second)) (\<lambda>b.
     bind_result (py_div a b) (\<lambda>r.
     Inr (if r \<le> t then Some (fst best) else None)))))) = Inl MathDomainError"
  shows "\<exists>x \<in> set srt. angular d1 (snd x) = Inl MathDomainError"
proof -
  from py_index_member [of srt 0] run
  obtain best where best: "best \<in> set srt" "py_index srt 0 = Inr best"
    by auto
  show ?thesis
  proof (cases "angular d1 (snd best)")
    case (Inl e)
    with run best have "angular d1 (snd best) = Inl MathDomainError"
      by simp
    with best(1) show ?thesis
      by blast
  next
    case a: (Inr a)
    from py_index_member [of srt 1] run best a obtain second where
      second: "second \<in> set srt" "py_index srt 1 = Inr second"
      by auto
    show ?thesis
    proof (cases "angular d1 (snd second)")
      case (Inl e)
      with run best a second have "angular d1 (snd second) = Inl MathDomainError"
        by simp
      with second(1) show ?thesis
        by blast
    next
      case (Inr b)
      with run best a second have False
        by (simp add: py_div_def split: if_splits)
      then show ?thesis ..
    qed
  qed
qed

lemma best_match_error_source:
  assumes "best_match d1 d2s t = Inl MathDomainError"
  shows "\<exists>d2 \<in> set d2s. angular d1 d2 = Inl MathDomainError"
proof (cases "sort_keys d1 (enumerate 0 d2s)")
  case (Inl e)
  with assms have "sort_keys d1 (enumerate 0 d2s) = Inl MathDomainError"
    by (simp add: best_match_def sorted_by_distance_def)
  from sort_keys_error_source [OF this] show ?thesis
    by (auto simp: in_set_enumerate_eq)
next
  case (Inr ks)
  let ?srt = "map fst (sort_key snd (zip (enumerate 0 d2s) ks))"
  have sub: "snd x \<in> set d2s" if "x \<in> set ?srt" for x
  proof -
    from that have "x \<in> set (enumerate 0 d2s)"
      by (auto dest: set_zip_leftD)
    then have "fst x < length d2s" "d2s ! fst x = snd x"
      by (auto simp: in_set_enumerate_eq)
    then show ?thesis
      by (metis nth_mem)
  qed
  from assms Inr have "bind_result (py_index ?srt 0) (\<lambda>best.
     bind_result (angular d1 (snd best)) (\<lambda>a.
     bind_result (py_index ?srt 1) (\<lambda>second.
     bind_result (angular d1 (snd second)) (\<lambda>b.
     bind_result (py_div a b) (\<lambda>r.
     Inr (if r \<le> t then Some (fst best) else None)))))) = Inl MathDomainError"
    by (simp add: best_match_def sorted_by_distance_def)
  from ratio_step_error_source [OF this] obtain x where
    "x \<in> set ?srt" "angular d1 (snd x) = Inl MathDomainError"
    by blast
  with sub [OF this(1)] show ?thesis
    by blast
qed

lemma match_loop_error_source:
  "match_loop i0 ds d2s t = Inl e \<Longrightarrow> \<exists>d \<in> set ds. best_match d d2s t = Inl e"
proof (induction ds arbitrary: i0)
  case Nil
  then show ?case by simp
next
  case (Cons d ds)
  show ?case
  proof (cases "best_match d d2s t")
    case (Inl e')
    with Cons.prems show ?thesis by simp
  next
    case (Inr m)
    with Cons.prems have "match_loop (Suc i0) ds d2s t = Inl e"
      by (cases "match_loop (Suc i0) ds d2s t") simp_all
    from Cons.IH [OF this] show ?thesis
      by auto
  qed
qed

lemma match_loop_abort:
  "\<forall>d \<in> set pre. \<exists>m. best_match d d2s t = Inr m \<Longrightarrow> best_match d1 d2s t = Inl e \<Longrightarrow>
   match_loop i0 (pre @ d1 # post) d2s t = Inl e"
proof (induction pre arbitrary: i0)
  case Nil
  then show ?case by simp
next
  case (Cons d pre)
  from Cons.prems(1) obtain m where "best_match d d2s t = Inr m"
    by auto
  moreover from Cons.prems have "match_loop (Suc i0) (pre @ d1 # post) d2s t = Inl e"
    by (intro Cons.IH) auto
  ultimately show ?case by simp
qed

text \<open>
  C4 (amended). The dot product is not clamped: it goes to \<^verbatim>\<open>acos\<close> as computed. The call
  fails with the domain error of \<^verbatim>\<open>acos\<close> only if some compared dot product is outside
  \<open>[-1, 1]\<close>; and it does fail with it as soon as a row of \<open>descriptors1\<close> is reached (the
  rows before it having been matched without exception) that has, with some row of
  \<open>descriptors2\<close>, a dot product outside \<open>[-1, 1]\<close>.
\<close>

theorem FindBestMatches_domain_error:
  "(FindBestMatches descriptors1 descriptors2 threshold = Inl MathDomainError \<longrightarrow>
      (\<exists>d1 \<in> set descriptors1. \<exists>d2 \<in> set descriptors2. \<exists>x.
         np_dot d1 d2 = Inr x \<and> \<not> (- 1 \<le> x \<and> x \<le> 1))) \<and>
   ((\<forall>d \<in> set pre. \<exists>m. best_match d descriptors2 threshold = Inr m) \<and>
    (\<forall>d2 \<in> set descriptors2. length d1 = length d2) \<and>
    (\<exists>d2 \<in> set descriptors2. \<exists>x. np_dot d1 d2 = Inr x \<and> \<not> (- 1 \<le> x \<and> x \<le> 1)) \<longrightarrow>
      FindBestMatches (pre @ d1 # post) descriptors2 threshold = Inl MathDomainError)"
proof (intro conjI impI)
  assume "FindBestMatches descriptors1 descriptors2 threshold = Inl MathDomainError"
  then obtain d1 where d1: "d1 \<in> set descriptors1"
    "best_match d1 descriptors2 threshold = Inl MathDomainError"
    unfolding FindBestMatches_def by (blast dest: match_loop_error_source)
  from best_match_error_source [OF d1(2)] obtain d2 where
    d2: "d2 \<in> set descriptors2" "angular d1 d2 = Inl MathDomainError"
    by blast
  from d2(2) have "\<exists>x. np_dot d1 d2 = Inr x \<and> \<not> (- 1 \<le> x \<and> x \<le> 1)"
    by (auto simp: angular_def np_dot_def math_acos_def split: if_splits)
  with d1(1) d2(1) show "\<exists>d1 \<in> set descriptors1. \<exists>d2 \<in> set descriptors2. \<exists>x.
         np_dot d1 d2 = Inr x \<and> \<not> (- 1 \<le> x \<and> x \<le> 1)"
    by blast
next
  assume a: "(\<forall>d \<in> set pre. \<exists>m. best_match d descriptors2 threshold = Inr m) \<and>
    (\<forall>d2 \<in> set descriptors2. length d1 = length d2) \<and>
    (\<exists>d2 \<in> set descriptors2. \<exists>x. np_dot d1 d2 = Inr x \<and> \<not> (- 1 \<le> x \<and> x \<le> 1))"
  then have aligned: "\<forall>e \<in> set (enumerate 0 descriptors2). length d1 = length (snd e)"
    by (auto simp: in_set_enumerate_eq)
  from a obtain d2 where d2: "d2 \<in> set descriptors2"
    "\<not> (- 1 \<le> sum_list (map2 (*) d1 d2) \<and> sum_list (map2 (*) d1 d2) \<le> 1)"
    by (auto simp: np_dot_def split: if_splits)
  from d2(1) obtain k where "k < length descriptors2" "descriptors2 ! k = d2"
    by (auto simp: in_set_conv_nth)
  then have "(k, d2) \<in> set (enumerate 0 descriptors2)"
    by (auto simp: in_set_enumerate_eq)
  with d2(2) have "\<exists>e \<in> set (enumerate 0 descriptors2).
      \<not> (- 1 \<le> sum_list (map2 (*) d1 (snd e)) \<and> sum_list (map2 (*) d1 (snd e)) \<le> 1)"
    by force
  from sort_keys_domain_error [OF aligned this]
  have "best_match d1 descriptors2 threshold = Inl MathDomainError"
    by (simp add: best_match_def sorted_by_distance_def)
  with a show "FindBestMatches (pre @ d1 # post) descriptors2 threshold = Inl MathDomainError"
    unfolding FindBestMatches_def by (intro match_loop_abort) blast+
qed

theorem FindBestMatches_domain_error_witness:
  "FindBestMatches [[1, 0], [2, 0], [0, 1]] [[1, 0], [0, 1]] (1 / 2) = Inl MathDomainError \<and>
   (\<exists>d1 \<in> set [[1, 0], [2, 0], [0, 1]]. \<exists>d2 \<in> set [[1, 0], [0, 1]]. \<exists>x.
      np_dot d1 d2 = Inr x \<and> \<not> (- 1 \<le> x \<and> x \<le> 1))"
proof -
  let ?d2s = "[[1, 0], [0, 1]] :: real list list"
  have "\<forall>d \<in> set [[1, 0 :: real]]. \<exists>m. best_match d ?d2s (1 / 2) = Inr m"
    by (simp add: matcher_defs pi_not_le_zero)
  moreover have "\<forall>d2 \<in> set ?d2s. length [2, 0 :: real] = length d2"
    by simp
  moreover have "np_dot [2, 0] [1, 0] = Inr 2 \<and> \<not> (- 1 \<le> (2 :: real) \<and> (2 :: real) \<le> 1)"
    by (simp add: np_dot_def)
  then have "\<exists>d2 \<in> set ?d2s. \<exists>x. np_dot [2, 0] d2 = Inr x \<and> \<not> (- 1 \<le> x \<and> x \<le> 1)"
    by (intro bexI [of _ "[1, 0]"] exI [of _ 2]) simp_all
  ultimately
  have "FindBestMatches ([[1, 0]] @ [2, 0] # [[0, 1]]) ?d2s (1 / 2) = Inl MathDomainError"
    using FindBestMatches_domain_error [of "[]" ?d2s "1 / 2" "[[1, 0]]" "[2, 0]" "[[0, 1]]"]
    by blast
  then have run: "FindBestMatches [[1, 0], [2, 0], [0, 1]] ?d2s (1 / 2) = Inl MathDomainError"
    by simp
  with FindBestMatches_domain_error [of "[[1, 0], [2, 0], [0, 1]]" ?d2s "1 / 2" "[]" "[]" "[]"]
  show ?thesis
    by blast
qed

end
